theory Spec2Isabelle
  imports Complex_Main
begin

section \<open>Discrete Gaussian derivative kernels (itkGaussianDerivativeOperator.hxx)\<close>

text \<open>
  The embedding follows \<^verbatim>\<open>GaussianDerivativeOperator\<close> function by function.
  A C++ \<^verbatim>\<open>double\<close> is modelled as a \<^typ>\<open>real\<close>: arithmetic is exact, there is
  no rounding, no overflow to infinity and no NaN, and \<^verbatim>\<open>CompensatedSummation\<close> is a plain
  sum. What is proved about values is therefore what the source computes in exact
  arithmetic; where a double computation leaves the finite range, that is stated
  separately, as a comparison of the exact intermediate value with the largest finite
  double.
  A thrown \<^verbatim>\<open>ExceptionObject\<close> is a value \<open>Inl e\<close>; a call of \<^verbatim>\<open>itkWarningMacro\<close> is an
  entry in a list of warnings returned beside the result. Loop counters are unbounded
  (\<^typ>\<open>nat\<close>, \<^typ>\<open>int\<close>): the source's \<^verbatim>\<open>int\<close> counters stay far below \<open>2^31\<close> for any
  vector that fits in memory.
\<close>

subsection \<open>Errors and warnings\<close>

datatype error =
    InvalidArgument   \<comment> \<open>the \<^verbatim>\<open>ExceptionObject\<close> thrown by \<^verbatim>\<open>ModifiedBesselI\<close>\<close>
  | OutOfBounds       \<comment> \<open>a vector access outside its storage (undefined behaviour in C++)\<close>

datatype warning =
    PrecisionWarning    \<comment> \<open>"Kernel failed to accumulate to approximately one ..."\<close>
  | TruncationWarning   \<comment> \<open>"Kernel size has exceeded the specified maximum width ..."\<close>

subsection \<open>Modified Bessel functions\<close>

definition ModifiedBesselI0 :: "real \<Rightarrow> real" where
  "ModifiedBesselI0 y =
     (let d = \<bar>y\<bar> in
      if d < 3.75 then
        (let m = (y / 3.75) * (y / 3.75) in
         1.0 + m * (3.5156229 + m * (3.0899424 + m * (1.2067492 + m * (0.2659732
               + m * (0.0360768 + m * 0.0045813))))))
      else
        (let m = 3.75 / d in
         (exp d / sqrt d) *
         (0.39894228 + m * (0.01328592 + m * (0.00225319 + m * (- 0.00157565
            + m * (0.00916281 + m * (- 0.02057706 + m * (0.02635537
            + m * (- 0.01647633 + m * 0.00392377))))))))))"

definition ModifiedBesselI1 :: "real \<Rightarrow> real" where
  "ModifiedBesselI1 y =
     (let d = \<bar>y\<bar>;
          accumulator =
            (if d < 3.75 then
               (let m = (y / 3.75) * (y / 3.75) in
                d * (0.5 + m * (0.87890594 + m * (0.51498869 + m * (0.15084934
                     + m * (0.02658733 + m * (0.00301532 + m * 0.00032411)))))))
             else
               (let m = 3.75 / d;
                    a1 = 0.02282967 + m * (- 0.02895312 + m * (0.01787654 - m * 0.00420059));
                    a2 = 0.39894228 + m * (- 0.03988024 + m * (- 0.00362018
                           + m * (0.00163801 + m * (- 0.01031555 + m * a1))))
                in a2 * (exp d / sqrt d)))
      in if y < 0.0 then - accumulator else accumulator)"

text \<open>
  The state of the downward recurrence of \<^verbatim>\<open>ModifiedBesselI\<close>: the locals
  \<^verbatim>\<open>accumulator\<close>, \<^verbatim>\<open>qi\<close>, \<^verbatim>\<open>qip\<close>, and the number of loop bodies executed so far
  (a counter the source does not have; it records whether the loop ran).
\<close>

record bessel_state =
  accumulator :: real
  qi :: real
  qip :: real
  iterations :: nat

text \<open>
  One body of \<^verbatim>\<open>for (int j = ...; j > 0; j--)\<close> at loop index \<open>j\<close>. The literals
  \<^verbatim>\<open>1.0e10\<close> and \<^verbatim>\<open>1.0e-10\<close> are \<open>10 ^ 10\<close> and \<open>1 / 10 ^ 10\<close>.
\<close>

definition bessel_body :: "int \<Rightarrow> real \<Rightarrow> nat \<Rightarrow> bessel_state \<Rightarrow> bessel_state" where
  "bessel_body n toy j s =
     (let qim = qip s + real j * toy * qi s;
          s1 = s\<lparr>qip := qi s, qi := qim\<rparr>;
          s2 = (if \<bar>qi s1\<bar> > 10 ^ 10
                then s1\<lparr>accumulator := accumulator s1 * (1 / 10 ^ 10),
                        qi := qi s1 * (1 / 10 ^ 10),
                        qip := qip s1 * (1 / 10 ^ 10)\<rparr>
                else s1);
          s3 = (if int j = n then s2\<lparr>accumulator := qip s2\<rparr> else s2)
      in s3\<lparr>iterations := Suc (iterations s3)\<rparr>)"

text \<open>The loop from index \<open>j\<close> down to 1.\<close>

fun bessel_loop :: "int \<Rightarrow> real \<Rightarrow> nat \<Rightarrow> bessel_state \<Rightarrow> bessel_state" where
  "bessel_loop n toy 0 s = s"
| "bessel_loop n toy (Suc j) s = bessel_loop n toy j (bessel_body n toy (Suc j) s)"

text \<open>
  \<^verbatim>\<open>ModifiedBesselI(n, y)\<close>, returning the value together with the number of loop bodies
  the call executed. The start index is
  \<^verbatim>\<open>2 * (n + static_cast<int>(DIGITS * std::sqrt(static_cast<double>(n))))\<close> with
  \<^verbatim>\<open>DIGITS = 10.0\<close>; the cast truncates a non-negative value, which is \<open>floor\<close>.
\<close>

definition ModifiedBesselI_run :: "int \<Rightarrow> real \<Rightarrow> error + (real \<times> nat)" where
  "ModifiedBesselI_run n y =
     (if n < 2 then Inl InvalidArgument
      else if y = 0.0 then Inr (0.0, 0)
      else
        (let toy = 2.0 / \<bar>y\<bar>;
             start = 2 * (n + \<lfloor>10.0 * sqrt (real_of_int n)\<rfloor>);
             s = bessel_loop n toy (nat start)
                   \<lparr>accumulator = 0.0, qi = 1.0, qip = 0.0, iterations = 0\<rparr>;
             acc = accumulator s * (ModifiedBesselI0 y / qi s)
         in Inr (if y < 0.0 \<and> odd n then - acc else acc, iterations s)))"

definition ModifiedBesselI :: "int \<Rightarrow> real \<Rightarrow> error + real" where
  "ModifiedBesselI n y = map_sum id fst (ModifiedBesselI_run n y)"

subsection \<open>The operator's parameters\<close>

text \<open>
  The data members of \<^verbatim>\<open>GaussianDerivativeOperator\<close> that the coefficient generation
  reads. \<^verbatim>\<open>m_MaximumKernelWidth\<close> and \<^verbatim>\<open>m_Order\<close> are \<^verbatim>\<open>unsigned int\<close>.
\<close>

record gaussian_operator =
  m_Variance :: real
  m_Spacing :: real
  m_MaximumError :: real
  m_MaximumKernelWidth :: nat
  m_Order :: nat
  m_NormalizeAcrossScale :: bool

text \<open>\<^verbatim>\<open>NumericTraits<double>::epsilon()\<close>, the machine epsilon of a double.\<close>

definition epsilon :: real where
  "epsilon = 1 / 2 ^ 52"

text \<open>
  \<^verbatim>\<open>std::numeric_limits<double>::max()\<close>, the largest finite double. A double operation
  whose exact result is above it returns infinity.
\<close>

definition DBL_MAX :: real where
  "DBL_MAX = (2 - 1 / 2 ^ 52) * 2 ^ 1023"

subsection \<open>GenerateGaussianCoefficients\<close>

text \<open>
  The loop \<^verbatim>\<open>for (int i = 2; sum.GetSum() < cap; ++i)\<close>. Its state is the index \<open>i\<close>,
  the vector \<^verbatim>\<open>coeff\<close> and the running \<^verbatim>\<open>sum\<close> (here \<open>sumv\<close>); it returns the vector and the warning it
  emitted, if any. An exception of \<^verbatim>\<open>ModifiedBesselI\<close> leaves the loop and the function.
\<close>

function accumulate_taps ::
  "real \<Rightarrow> real \<Rightarrow> real \<Rightarrow> nat \<Rightarrow> nat \<Rightarrow> real list \<Rightarrow> real \<Rightarrow> error + (real list \<times> warning list)"
where
  "accumulate_taps et pixelVariance cap maxWidth i coeff sumv =
     (if sumv < cap then
        (case ModifiedBesselI (int i) pixelVariance of
           Inl e \<Rightarrow> Inl e
         | Inr b \<Rightarrow>
             (let coeff' = coeff @ [et * b];
                  sumv' = sumv + coeff' ! i * 2.0
              in if coeff' ! i < sumv' * epsilon then Inr (coeff', [PrecisionWarning])
                 else if length coeff' > maxWidth then Inr (coeff', [TruncationWarning])
                 else accumulate_taps et pixelVariance cap maxWidth (i + 1) coeff' sumv'))
      else Inr (coeff, []))"
  by pat_completeness auto
termination
  by (relation "measure (\<lambda>(et, pv, cap, maxWidth, i, coeff, sumv). Suc maxWidth - length coeff)")
     auto

declare accumulate_taps.simps [simp del]

text \<open>
  The re-accumulation \<^verbatim>\<open>std::accumulate(coeff.rbegin(), coeff.rend() - 1, 0.0)\<close>, doubled,
  plus \<^verbatim>\<open>coeff[0]\<close>, and the division of every tap by that sum.
\<close>

definition normalize_taps :: "real list \<Rightarrow> real list" where
  "normalize_taps coeff =
     (let sum0 = foldl (+) 0.0 (butlast (rev coeff));
          sum1 = sum0 * 2.0;
          sum2 = sum1 + coeff ! 0
      in map (\<lambda>c. c / sum2) coeff)"

text \<open>
  "Make symmetric": \<^verbatim>\<open>coeff.insert(coeff.begin(), s, 0)\<close> puts \<open>s\<close> zeros in front, and
  \<^verbatim>\<open>std::copy_n(coeff.rbegin(), s, coeff.begin())\<close> overwrites them with the last \<open>s\<close>
  elements read backwards.
\<close>

definition make_symmetric :: "real list \<Rightarrow> real list" where
  "make_symmetric coeff =
     (let s = length coeff - 1;
          inserted = replicate s 0 @ coeff
      in take s (rev inserted) @ drop s inserted)"

definition GenerateGaussianCoefficients ::
  "gaussian_operator \<Rightarrow> error + (real list \<times> warning list)"
where
  "GenerateGaussianCoefficients p =
     (let pixelVariance = m_Variance p / (m_Spacing p * m_Spacing p);
          et = exp (- pixelVariance);
          cap = 1.0 - m_MaximumError p;
          coeff0 = [et * ModifiedBesselI0 pixelVariance];
          sum0 = coeff0 ! 0;
          coeff1 = coeff0 @ [et * ModifiedBesselI1 pixelVariance];
          sum1 = sum0 + coeff1 ! 1 * 2.0
      in case accumulate_taps et pixelVariance cap (m_MaximumKernelWidth p) 2 coeff1 sum1 of
           Inl e \<Rightarrow> Inl e
         | Inr (coeff, ws) \<Rightarrow> Inr (make_symmetric (normalize_taps coeff), ws))"

subsection \<open>GenerateCoefficients\<close>

text \<open>
  The derivative operator \<^verbatim>\<open>derivOp\<close> is an external class; the function reads only its
  size and its coefficients, so the model takes the coefficient vector as a parameter.

  The padded copy of the Gaussian kernel: a vector of \<^verbatim>\<open>coeff.size() + 4 * N - 2\<close>
  zeros, the kernel copied in from position \<open>2 * N - 1\<close>, then the first \<open>2 * N\<close> places
  filled with \<^verbatim>\<open>coeff.front()\<close> and the last \<open>2 * N\<close> places with \<^verbatim>\<open>coeff.back()\<close>.
\<close>

definition pad_clamped :: "real list \<Rightarrow> nat \<Rightarrow> real list" where
  "pad_clamped coeff N =
     (let padded0 = replicate (length coeff + 4 * N - 2) 0;
          padded1 = take (2 * N - 1) padded0 @ coeff @ drop (2 * N - 1 + length coeff) padded0;
          padded2 = replicate (2 * N) (hd coeff) @ drop (2 * N) padded1;
          padded3 = take (length padded2 - 2 * N) padded2 @ replicate (2 * N) (last coeff)
      in padded3)"

text \<open>
  The inner loop \<^verbatim>\<open>for (j = 0; j < derivOp.Size(); ++j)\<close> at output position \<open>i\<close>, over the
  remaining indices \<open>js\<close>. The index \<^verbatim>\<open>k = i + j - derivOp.Size() / 2\<close> is unsigned in the
  source: a negative value wraps to an index far outside the vector.
\<close>

fun correlate :: "real list \<Rightarrow> real list \<Rightarrow> nat \<Rightarrow> nat list \<Rightarrow> real \<Rightarrow> error + real" where
  "correlate paddedCoeff derivOp i [] conv = Inr conv"
| "correlate paddedCoeff derivOp i (j # js) conv =
     (let k = int i + int j - int (length derivOp div 2)
      in if k < 0 \<or> int (length paddedCoeff) \<le> k then Inl OutOfBounds
         else correlate paddedCoeff derivOp i js
                (conv + paddedCoeff ! nat k * derivOp ! (length derivOp - 1 - j)))"

text \<open>The outer loop \<^verbatim>\<open>for (i = N; i < paddedCoeff.size() - N; ++i)\<close> over the indices \<open>i # idxs\<close>;
  \<^verbatim>\<open>norm\<close> is \<open>normv\<close> here.\<close>

fun convolve ::
  "real \<Rightarrow> real list \<Rightarrow> real list \<Rightarrow> nat list \<Rightarrow> real list \<Rightarrow> error + real list"
where
  "convolve normv paddedCoeff derivOp [] coeff = Inr coeff"
| "convolve normv paddedCoeff derivOp (i # idxs) coeff =
     (case correlate paddedCoeff derivOp i [0..<length derivOp] 0.0 of
        Inl e \<Rightarrow> Inl e
      | Inr conv \<Rightarrow> convolve normv paddedCoeff derivOp idxs (coeff @ [normv * conv]))"

text \<open>
  \<^verbatim>\<open>std::pow(x, y)\<close> on doubles, over the reals: \<open>x powr y\<close> for a positive base, 1 for
  exponent 0, 0 for base 0 and a positive exponent, and the integer power for a negative
  base and an integral exponent (so \<^verbatim>\<open>std::pow(-4, 1.0)\<close> is \<open>-4\<close>). The source returns
  NaN for a negative base with a non-integral exponent and infinity for base 0 with a
  negative exponent; \<^typ>\<open>real\<close> has neither value, and the last branch is a placeholder
  there. Likewise a division by zero gives infinity or NaN in the source and 0 in
  \<^typ>\<open>real\<close>. Statements about the value of the scale factor therefore assume a variance
  that is not negative and a spacing that is not zero.
\<close>

definition std_pow :: "real \<Rightarrow> real \<Rightarrow> real" where
  "std_pow x y =
     (if y = 0 then 1
      else if 0 < x then x powr y
      else if x = 0 \<and> 0 < y then 0
      else if x < 0 \<and> y \<in> \<int> then x powi \<lfloor>y\<rfloor>
      else x powr y)"

text \<open>
  \<^verbatim>\<open>std::pow(m_Spacing, static_cast<int>(m_Order))\<close> is a power with a natural exponent.
  With \<open>N = 0\<close> the source's \<^verbatim>\<open>std::copy\<close> would start one place before the padded
  vector.
\<close>

definition GenerateCoefficients ::
  "gaussian_operator \<Rightarrow> real list \<Rightarrow> error + (real list \<times> warning list)"
where
  "GenerateCoefficients p derivOp =
     (case GenerateGaussianCoefficients p of
        Inl e \<Rightarrow> Inl e
      | Inr (coeff, ws) \<Rightarrow>
          if m_Order p = 0 then Inr (coeff, ws)
          else
            (let norm0 = (if m_NormalizeAcrossScale p
                          then std_pow (m_Variance p) (real (m_Order p) / 2.0) else 1.0);
                 normv = norm0 / m_Spacing p ^ m_Order p;
                 N = (length derivOp - 1) div 2
             in if N = 0 then Inl OutOfBounds
                else
                  (let paddedCoeff = pad_clamped coeff N
                   in case convolve normv paddedCoeff derivOp
                             [N..<length paddedCoeff - N] [] of
                        Inl e \<Rightarrow> Inl e
                      | Inr out \<Rightarrow> Inr (out, ws))))"

text \<open>The kernel and the warnings of a result; an exception has neither.\<close>

definition kernel_of :: "error + (real list \<times> warning list) \<Rightarrow> real list" where
  "kernel_of r = (case r of Inl e \<Rightarrow> [] | Inr (k, ws) \<Rightarrow> k)"

definition warnings_of :: "error + (real list \<times> warning list) \<Rightarrow> warning list" where
  "warnings_of r = (case r of Inl e \<Rightarrow> [] | Inr (k, ws) \<Rightarrow> ws)"

section \<open>Properties of the Bessel functions\<close>

text \<open>
  Claim C4. For every \<open>y\<close> and every integer \<open>n < 2\<close>, \<^verbatim>\<open>ModifiedBesselI(n, y)\<close> raises
  InvalidArgument and produces no result.
\<close>

theorem C4_ModifiedBesselI_rejects_small_order:
  "n < 2 \<Longrightarrow> ModifiedBesselI n y = Inl InvalidArgument \<and> (\<nexists>v. ModifiedBesselI n y = Inr v)"
  by (simp add: ModifiedBesselI_def ModifiedBesselI_run_def)

theorem C4_witness:
  "(1::int) < 2 \<and> ModifiedBesselI 1 3 = Inl InvalidArgument \<and> (\<nexists>v. ModifiedBesselI 1 3 = Inr v)"
  using C4_ModifiedBesselI_rejects_small_order [of 1 3] by simp

text \<open>
  Claim C9. For \<open>n < 2\<close> the argument check comes before the zero-argument shortcut:
  \<^verbatim>\<open>ModifiedBesselI(0, 0)\<close> and \<^verbatim>\<open>ModifiedBesselI(1, 0)\<close> raise InvalidArgument instead of
  returning 0.
\<close>

theorem C9_check_precedes_zero_shortcut:
  "ModifiedBesselI 0 0 = Inl InvalidArgument \<and> ModifiedBesselI 1 0 = Inl InvalidArgument
   \<and> ModifiedBesselI 0 0 \<noteq> Inr 0 \<and> ModifiedBesselI 1 0 \<noteq> Inr 0"
  by (simp add: ModifiedBesselI_def ModifiedBesselI_run_def)

text \<open>
  Claim C8. For every integer \<open>n \<ge> 2\<close>, \<^verbatim>\<open>ModifiedBesselI(n, 0)\<close> returns exactly 0, and
  the downward recurrence does not run: no loop body is executed.
\<close>

theorem C8_zero_argument_shortcut:
  "2 \<le> n \<Longrightarrow> ModifiedBesselI n 0 = Inr 0 \<and> ModifiedBesselI_run n 0 = Inr (0, 0)"
  by (simp add: ModifiedBesselI_def ModifiedBesselI_run_def)

theorem C8_witness:
  "(2::int) \<le> 7 \<and> ModifiedBesselI 7 0 = Inr 0 \<and> ModifiedBesselI_run 7 0 = Inr (0, 0)"
  using C8_zero_argument_shortcut [of 7] by simp

text \<open>
  Claim C7. \<^verbatim>\<open>ModifiedBesselI1\<close> is an odd function: for every real \<open>y\<close>,
  \<^verbatim>\<open>ModifiedBesselI1(-y) == -ModifiedBesselI1(y)\<close>.
\<close>

theorem C7_ModifiedBesselI1_odd: "ModifiedBesselI1 (- y) = - ModifiedBesselI1 y"
  by (simp add: ModifiedBesselI1_def Let_def)

section \<open>Properties of the kernel generation\<close>

subsection \<open>The order-0 kernel\<close>

lemma accumulate_taps_ok:
  "2 \<le> i \<Longrightarrow> \<exists>coeff' ws. accumulate_taps et pv cap maxW i coeff sumv = Inr (coeff', ws)
      \<and> length coeff \<le> length coeff'"
proof (induction et pv cap maxW i coeff sumv rule: accumulate_taps.induct)
  case (1 et pv cap maxW i coeff sumv)
  show ?case
  proof (cases "sumv < cap")
    case False
    then show ?thesis by (simp add: accumulate_taps.simps)
  next
    case True
    from "1.prems" have nb: "\<not> int i < 2" by simp
    obtain b where b: "ModifiedBesselI (int i) pv = Inr b"
      using nb by (cases "ModifiedBesselI (int i) pv")
        (auto simp: ModifiedBesselI_def ModifiedBesselI_run_def Let_def split: if_splits)
    show ?thesis
      using True b "1.IH"[OF True b refl refl] "1.prems"
      apply (subst accumulate_taps.simps)
      apply (auto simp: Let_def)
      done
  qed
qed

lemma length_make_symmetric: "length (make_symmetric coeff) = 2 * length coeff - 1"
  by (auto simp: make_symmetric_def Let_def)

lemma length_normalize_taps: "length (normalize_taps coeff) = length coeff"
  by (simp add: normalize_taps_def Let_def)

lemma GenerateGaussianCoefficients_ok:
  "\<exists>coeff ws. GenerateGaussianCoefficients p = Inr (make_symmetric (normalize_taps coeff), ws)
       \<and> 2 \<le> length coeff"
proof -
  define pv where "pv = m_Variance p / (m_Spacing p * m_Spacing p)"
  define c1 where "c1 = [exp (- pv) * ModifiedBesselI0 pv] @ [exp (- pv) * ModifiedBesselI1 pv]"
  define s1 where "s1 = [exp (- pv) * ModifiedBesselI0 pv] ! 0 + c1 ! 1 * 2.0"
  obtain coeff ws where
    r: "accumulate_taps (exp (- pv)) pv (1.0 - m_MaximumError p) (m_MaximumKernelWidth p) 2 c1 s1
          = Inr (coeff, ws)"
    and len: "length c1 \<le> length coeff"
    using accumulate_taps_ok[of 2] by blast
  have "GenerateGaussianCoefficients p = Inr (make_symmetric (normalize_taps coeff), ws)"
    unfolding GenerateGaussianCoefficients_def Let_def
    using r unfolding pv_def c1_def s1_def by simp
  moreover have "2 \<le> length coeff" using len by (simp add: c1_def)
  ultimately show ?thesis by blast
qed

text \<open>
  Claim C10. For every parameter setting, \<^verbatim>\<open>GenerateGaussianCoefficients\<close> returns a kernel
  of odd length with at least 3 taps: the two seed taps are pushed before the loop tests
  anything, the loop only appends, and mirroring \<open>len\<close> taps gives \<open>2 * len - 1\<close>.
\<close>

theorem C10_kernel_length_odd_at_least_3:
  "\<exists>k ws. GenerateGaussianCoefficients p = Inr (k, ws) \<and> odd (length k) \<and> 3 \<le> length k"
proof -
  obtain coeff ws where r: "GenerateGaussianCoefficients p = Inr (make_symmetric (normalize_taps coeff), ws)"
    and len: "2 \<le> length coeff"
    using GenerateGaussianCoefficients_ok by blast
  have l: "length (make_symmetric (normalize_taps coeff)) = 2 * length coeff - 1"
    by (simp add: length_make_symmetric length_normalize_taps)
  have "odd (2 * length coeff - 1)" using len by (cases coeff) simp_all
  moreover have "3 \<le> 2 * length coeff - 1" using len by linarith
  ultimately show ?thesis using r l by auto
qed

subsection \<open>The order-0 kernel in exact arithmetic\<close>

lemma make_symmetric_eq: "coeff \<noteq> [] \<Longrightarrow> make_symmetric coeff = rev (tl coeff) @ coeff"
  by (cases coeff) (auto simp: make_symmetric_def Let_def)

lemma rev_make_symmetric: "coeff \<noteq> [] \<Longrightarrow> rev (make_symmetric coeff) = make_symmetric coeff"
  by (cases coeff) (simp_all add: make_symmetric_eq)

lemma make_symmetric_nth:
  assumes "coeff \<noteq> []" and "i < length (make_symmetric coeff)"
  shows "make_symmetric coeff ! i = make_symmetric coeff ! (length (make_symmetric coeff) - 1 - i)"
proof -
  have "make_symmetric coeff ! i = rev (make_symmetric coeff) ! i"
    using assms(1) by (simp add: rev_make_symmetric)
  also have "\<dots> = make_symmetric coeff ! (length (make_symmetric coeff) - Suc i)"
    using assms(2) by (rule rev_nth)
  finally show ?thesis by simp
qed

lemma foldl_plus_sum_list: "foldl (+) a xs = a + sum_list (xs :: real list)"
  by (induction xs arbitrary: a) (simp_all add: add.assoc)

lemma sum_list_make_symmetric:
  "coeff \<noteq> [] \<Longrightarrow> sum_list (make_symmetric coeff) = 2 * sum_list (tl coeff) + hd coeff"
  by (cases coeff) (simp_all add: make_symmetric_eq)

lemma normalize_taps_eq:
  "coeff \<noteq> [] \<Longrightarrow>
   normalize_taps coeff = map (\<lambda>c. c / (2 * sum_list (tl coeff) + hd coeff)) coeff"
  by (cases coeff)
     (simp_all add: normalize_taps_def Let_def foldl_plus_sum_list butlast_append)

lemma sum_list_divide: "sum_list (map (\<lambda>c. c / s) xs) = sum_list xs / (s :: real)"
  by (induction xs) (simp_all add: add_divide_distrib)

lemma sum_list_normalized_kernel:
  assumes "coeff \<noteq> []" and "2 * sum_list (tl coeff) + hd coeff \<noteq> 0"
  shows "sum_list (make_symmetric (normalize_taps coeff)) = 1"
proof -
  define s where "s = 2 * sum_list (tl coeff) + hd coeff"
  obtain c cs where c: "coeff = c # cs" using assms(1) by (cases coeff) auto
  have n: "normalize_taps coeff = (c / s) # map (\<lambda>c. c / s) cs"
    using normalize_taps_eq[OF assms(1)] by (simp add: c s_def)
  have "sum_list (make_symmetric (normalize_taps coeff))
      = 2 * sum_list (map (\<lambda>c. c / s) cs) + c / s"
    unfolding n by (simp add: sum_list_make_symmetric)
  also have "\<dots> = (2 * sum_list cs + c) / s"
    by (simp add: sum_list_divide add_divide_distrib)
  also have "\<dots> = 1" using assms(2) by (simp add: c s_def)
  finally show ?thesis .
qed

lemma abs_horner:
  assumes "0 \<le> m" and "m \<le> 1" and "\<bar>h\<bar> \<le> b"
  shows "\<bar>c + m * h\<bar> \<le> \<bar>c\<bar> + (b :: real)"
proof -
  have "\<bar>m * h\<bar> = m * \<bar>h\<bar>" using assms(1) by (simp add: abs_mult)
  also have "\<dots> \<le> 1 * \<bar>h\<bar>" using assms(2) by (intro mult_right_mono) simp_all
  finally have "\<bar>m * h\<bar> \<le> b" using assms(3) by simp
  then show ?thesis by linarith
qed

lemma positive_from_abs: "\<bar>x\<bar> \<le> b \<Longrightarrow> b < c \<Longrightarrow> 0 < c + (x :: real)"
  by linarith

lemma I0_tail_positive:
  assumes m0: "0 \<le> m" and m1: "m \<le> (1 :: real)"
  shows "0 < 0.39894228 + m * (0.01328592 + m * (0.00225319 + m * (- 0.00157565
            + m * (0.00916281 + m * (- 0.02057706 + m * (0.02635537
            + m * (- 0.01647633 + m * 0.00392377)))))))"
proof -
  note h = abs_horner[OF m0 m1]
  have b7: "\<bar>- 0.01647633 + m * 0.00392377\<bar> \<le> 0.03" using h[of "0.00392377" "0.004" "- 0.01647633"] by simp
  have b6: "\<bar>0.02635537 + m * (- 0.01647633 + m * 0.00392377)\<bar> \<le> 0.06"
    using h[OF b7, of "0.02635537"] by simp
  have b5: "\<bar>- 0.02057706 + m * (0.02635537 + m * (- 0.01647633 + m * 0.00392377))\<bar> \<le> 0.09"
    using h[OF b6, of "- 0.02057706"] by simp
  have b4: "\<bar>0.00916281 + m * (- 0.02057706 + m * (0.02635537 + m * (- 0.01647633
              + m * 0.00392377)))\<bar> \<le> 0.1"
    using h[OF b5, of "0.00916281"] by simp
  have b3: "\<bar>- 0.00157565 + m * (0.00916281 + m * (- 0.02057706 + m * (0.02635537
              + m * (- 0.01647633 + m * 0.00392377))))\<bar> \<le> 0.11"
    using h[OF b4, of "- 0.00157565"] by simp
  have b2: "\<bar>0.00225319 + m * (- 0.00157565 + m * (0.00916281 + m * (- 0.02057706
              + m * (0.02635537 + m * (- 0.01647633 + m * 0.00392377)))))\<bar> \<le> 0.12"
    using h[OF b3, of "0.00225319"] by simp
  have b1: "\<bar>0.01328592 + m * (0.00225319 + m * (- 0.00157565 + m * (0.00916281
              + m * (- 0.02057706 + m * (0.02635537 + m * (- 0.01647633
              + m * 0.00392377))))))\<bar> \<le> 0.14"
    using h[OF b2, of "0.01328592"] by simp
  have "\<bar>m * (0.01328592 + m * (0.00225319 + m * (- 0.00157565 + m * (0.00916281
              + m * (- 0.02057706 + m * (0.02635537 + m * (- 0.01647633
              + m * 0.00392377)))))))\<bar> \<le> 0.14"
    using h[OF b1, of 0] by simp
  then show ?thesis by (rule positive_from_abs) simp
qed

lemma ModifiedBesselI0_positive: "0 < ModifiedBesselI0 y"
proof (cases "\<bar>y\<bar> < 3.75")
  case True
  define m where "m = (y / 3.75) * (y / 3.75)"
  have m: "0 \<le> m" by (simp add: m_def)
  have "0 < 1.0 + m * (3.5156229 + m * (3.0899424 + m * (1.2067492 + m * (0.2659732
               + m * (0.0360768 + m * 0.0045813)))))"
    using m by (intro add_pos_nonneg mult_nonneg_nonneg add_nonneg_nonneg) simp_all
  then show ?thesis using True unfolding ModifiedBesselI0_def Let_def m_def by simp
next
  case False
  define d where "d = \<bar>y\<bar>"
  have d: "3.75 \<le> d" using False by (simp add: d_def)
  have "0 < 3.75 / d" "3.75 / d \<le> 1" using d by simp_all
  then have t: "0 < 0.39894228 + 3.75 / d * (0.01328592 + 3.75 / d * (0.00225319 + 3.75 / d * (- 0.00157565
            + 3.75 / d * (0.00916281 + 3.75 / d * (- 0.02057706 + 3.75 / d * (0.02635537
            + 3.75 / d * (- 0.01647633 + 3.75 / d * 0.00392377)))))))"
    by (intro I0_tail_positive) simp_all
  have "0 < exp d / sqrt d" using d by simp
  then have "0 < (exp d / sqrt d) * (0.39894228 + 3.75 / d * (0.01328592 + 3.75 / d * (0.00225319 + 3.75 / d * (- 0.00157565
            + 3.75 / d * (0.00916281 + 3.75 / d * (- 0.02057706 + 3.75 / d * (0.02635537
            + 3.75 / d * (- 0.01647633 + 3.75 / d * 0.00392377))))))))"
    using t by (rule mult_pos_pos)
  then show ?thesis
    unfolding ModifiedBesselI0_def Let_def d_def[symmetric] if_not_P[OF False[unfolded d_def[symmetric]]] .
qed

lemma I1_tail_positive:
  assumes m0: "0 \<le> m" and m1: "m \<le> (1 :: real)"
  shows "0 < 0.39894228 + m * (- 0.03988024 + m * (- 0.00362018
                           + m * (0.00163801 + m * (- 0.01031555 + m *
          (0.02282967 + m * (- 0.02895312 + m * (0.01787654 - m * 0.00420059)))))))"
proof -
  note h = abs_horner[OF m0 m1]
  have b7: "\<bar>0.01787654 - m * 0.00420059\<bar> \<le> 0.03" using h[of "- 0.00420059" "0.005" "0.01787654"] by simp
  have b6: "\<bar>- 0.02895312 + m * (0.01787654 - m * 0.00420059)\<bar> \<le> 0.06"
    using h[OF b7, of "- 0.02895312"] by simp
  have b5: "\<bar>0.02282967 + m * (- 0.02895312 + m * (0.01787654 - m * 0.00420059))\<bar> \<le> 0.09"
    using h[OF b6, of "0.02282967"] by simp
  have b4: "\<bar>- 0.01031555 + m * (0.02282967 + m * (- 0.02895312
              + m * (0.01787654 - m * 0.00420059)))\<bar> \<le> 0.11"
    using h[OF b5, of "- 0.01031555"] by simp
  have b3: "\<bar>0.00163801 + m * (- 0.01031555 + m * (0.02282967 + m * (- 0.02895312
              + m * (0.01787654 - m * 0.00420059))))\<bar> \<le> 0.12"
    using h[OF b4, of "0.00163801"] by simp
  have b2: "\<bar>- 0.00362018 + m * (0.00163801 + m * (- 0.01031555 + m * (0.02282967
              + m * (- 0.02895312 + m * (0.01787654 - m * 0.00420059)))))\<bar> \<le> 0.13"
    using h[OF b3, of "- 0.00362018"] by simp
  have b1: "\<bar>- 0.03988024 + m * (- 0.00362018 + m * (0.00163801 + m * (- 0.01031555
              + m * (0.02282967 + m * (- 0.02895312 + m * (0.01787654
              - m * 0.00420059))))))\<bar> \<le> 0.17"
    using h[OF b2, of "- 0.03988024"] by simp
  have "\<bar>m * (- 0.03988024 + m * (- 0.00362018 + m * (0.00163801 + m * (- 0.01031555
              + m * (0.02282967 + m * (- 0.02895312 + m * (0.01787654
              - m * 0.00420059)))))))\<bar> \<le> 0.17"
    using h[OF b1, of 0] by simp
  then show ?thesis by (rule positive_from_abs) simp
qed

lemma ModifiedBesselI1_nonneg: "0 \<le> y \<Longrightarrow> 0 \<le> ModifiedBesselI1 y"
proof (cases "\<bar>y\<bar> < 3.75")
  case True
  assume y: "0 \<le> y"
  define m where "m = (y / 3.75) * (y / 3.75)"
  have m: "0 \<le> m" by (simp add: m_def)
  have "0 \<le> \<bar>y\<bar> * (0.5 + m * (0.87890594 + m * (0.51498869 + m * (0.15084934
                     + m * (0.02658733 + m * (0.00301532 + m * 0.00032411))))))"
    using m by (intro mult_nonneg_nonneg add_nonneg_nonneg) simp_all
  then show ?thesis using True y unfolding ModifiedBesselI1_def Let_def m_def by simp
next
  case False
  assume y: "0 \<le> y"
  define d where "d = \<bar>y\<bar>"
  have d: "3.75 \<le> d" using False by (simp add: d_def)
  have "0 < 3.75 / d" "3.75 / d \<le> 1" using d by simp_all
  then have t: "0 < 0.39894228 + 3.75 / d * (- 0.03988024 + 3.75 / d * (- 0.00362018
                           + 3.75 / d * (0.00163801 + 3.75 / d * (- 0.01031555 + 3.75 / d *
          (0.02282967 + 3.75 / d * (- 0.02895312 + 3.75 / d * (0.01787654 - 3.75 / d * 0.00420059)))))))"
    by (intro I1_tail_positive) simp_all
  have "0 < exp d / sqrt d" using d by simp
  with t have "0 < (0.39894228 + 3.75 / d * (- 0.03988024 + 3.75 / d * (- 0.00362018
                           + 3.75 / d * (0.00163801 + 3.75 / d * (- 0.01031555 + 3.75 / d *
          (0.02282967 + 3.75 / d * (- 0.02895312 + 3.75 / d * (0.01787654 - 3.75 / d * 0.00420059))))))))
          * (exp d / sqrt d)"
    by (rule mult_pos_pos)
  moreover have "\<not> y < 0.0" using y by simp
  ultimately show ?thesis
    unfolding ModifiedBesselI1_def Let_def d_def[symmetric]
      if_not_P[OF False[unfolded d_def[symmetric]]]
    by simp
qed

lemma bessel_body_invariant:
  assumes "0 < toy" and "0 < j" and "0 < qi s \<and> 0 \<le> qip s \<and> 0 \<le> accumulator s"
  shows "0 < qi (bessel_body n toy j s) \<and> 0 \<le> qip (bessel_body n toy j s)
         \<and> 0 \<le> accumulator (bessel_body n toy j s)"
proof -
  have "0 < real j * toy * qi s" using assms by simp
  then have "0 < qip s + real j * toy * qi s" using assms(3) by linarith
  then show ?thesis
    using assms(3) by (auto simp: bessel_body_def Let_def)
qed

lemma bessel_loop_invariant:
  "0 < toy \<Longrightarrow> 0 < qi s \<and> 0 \<le> qip s \<and> 0 \<le> accumulator s \<Longrightarrow>
   0 < qi (bessel_loop n toy j s) \<and> 0 \<le> qip (bessel_loop n toy j s)
   \<and> 0 \<le> accumulator (bessel_loop n toy j s)"
proof (induction j arbitrary: s)
  case 0
  then show ?case by simp
next
  case (Suc j)
  show ?case
    unfolding bessel_loop.simps
    by (rule Suc.IH[OF Suc.prems(1)]) (rule bessel_body_invariant[OF Suc.prems(1) _ Suc.prems(2)], simp)
qed

lemma ModifiedBesselI_nonneg:
  assumes "0 < y" and "ModifiedBesselI n y = Inr b"
  shows "0 \<le> b"
proof (cases "n < 2")
  case True
  with assms(2) show ?thesis by (simp add: ModifiedBesselI_def ModifiedBesselI_run_def)
next
  case False
  define s where "s = bessel_loop n (2.0 / \<bar>y\<bar>) (nat (2 * (n + \<lfloor>10.0 * sqrt (real_of_int n)\<rfloor>)))
                   \<lparr>accumulator = 0.0, qi = 1.0, qip = 0.0, iterations = 0\<rparr>"
  have inv: "0 < qi s \<and> 0 \<le> qip s \<and> 0 \<le> accumulator s"
    unfolding s_def by (rule bessel_loop_invariant) (use assms(1) in simp_all)
  have "b = accumulator s * (ModifiedBesselI0 y / qi s)"
    using assms False
    by (simp add: ModifiedBesselI_def ModifiedBesselI_run_def Let_def s_def)
  moreover have "0 \<le> ModifiedBesselI0 y / qi s"
    using inv ModifiedBesselI0_positive[of y] by simp
  ultimately show ?thesis using inv by (simp only: mult_nonneg_nonneg)
qed

lemma accumulate_taps_extends:
  "accumulate_taps et pv cap maxW i coeff sumv = Inr (coeff', ws) \<Longrightarrow> 0 \<le> et \<Longrightarrow> 0 < pv \<Longrightarrow>
   \<exists>ext. coeff' = coeff @ ext \<and> list_all (\<lambda>x. 0 \<le> x) ext"
proof (induction et pv cap maxW i coeff sumv rule: accumulate_taps.induct)
  case (1 et pv cap maxW i coeff sumv)
  show ?case
  proof (cases "sumv < cap")
    case False
    with "1.prems" show ?thesis by (simp add: accumulate_taps.simps)
  next
    case True
    show ?thesis
    proof (cases "ModifiedBesselI (int i) pv")
      case (Inl e)
      with True "1.prems" show ?thesis by (simp add: accumulate_taps.simps)
    next
      case (Inr b)
      have b: "0 \<le> et * b"
        using ModifiedBesselI_nonneg[OF "1.prems"(3) Inr] "1.prems"(2) by simp
      show ?thesis
        using True Inr "1.IH"[OF True Inr refl refl] "1.prems" b
        by (subst (asm) accumulate_taps.simps) (auto simp: Let_def split: if_splits)
    qed
  qed
qed

lemma sum_list_nonneg_all: "list_all (\<lambda>x. 0 \<le> x) xs \<Longrightarrow> 0 \<le> sum_list (xs :: real list)"
  by (induction xs) simp_all

text \<open>
  In exact arithmetic the order-0 kernel sums to exactly 1 and reads the same in both
  directions, for every positive variance and spacing: the taps are not negative, the
  first one is positive, so the sum every tap is divided by is positive.
\<close>

lemma exact_kernel_sum_and_symmetry:
  assumes "0 < m_Variance p" and "0 < m_Spacing p"
  shows "\<exists>k ws. GenerateGaussianCoefficients p = Inr (k, ws) \<and> sum_list k = 1
           \<and> rev k = k \<and> (\<forall>i<length k. k ! i = k ! (length k - 1 - i))"
proof -
  define pv where "pv = m_Variance p / (m_Spacing p * m_Spacing p)"
  define c1 where "c1 = [exp (- pv) * ModifiedBesselI0 pv] @ [exp (- pv) * ModifiedBesselI1 pv]"
  define s1 where "s1 = [exp (- pv) * ModifiedBesselI0 pv] ! 0 + c1 ! 1 * 2.0"
  have pv: "0 < pv" using assms by (simp add: pv_def)
  obtain coeff ws where
    r: "accumulate_taps (exp (- pv)) pv (1.0 - m_MaximumError p) (m_MaximumKernelWidth p) 2 c1 s1
          = Inr (coeff, ws)"
    using accumulate_taps_ok[of 2] by blast
  have eq: "GenerateGaussianCoefficients p = Inr (make_symmetric (normalize_taps coeff), ws)"
    unfolding GenerateGaussianCoefficients_def Let_def
    using r unfolding pv_def c1_def s1_def by simp
  obtain ext where ext: "coeff = c1 @ ext" "list_all (\<lambda>x. 0 \<le> x) ext"
    using accumulate_taps_extends[OF r _ pv] by auto
  have c0: "0 < exp (- pv) * ModifiedBesselI0 pv"
    using ModifiedBesselI0_positive[of pv] by simp
  have c1': "0 \<le> exp (- pv) * ModifiedBesselI1 pv"
    using ModifiedBesselI1_nonneg[of pv] pv by simp
  have ne: "coeff \<noteq> []" by (simp add: ext c1_def)
  have "0 \<le> sum_list (tl coeff)"
    using c1' sum_list_nonneg_all[OF ext(2)] by (simp add: ext c1_def)
  moreover have "0 < hd coeff" using c0 by (simp add: ext c1_def)
  ultimately have s: "2 * sum_list (tl coeff) + hd coeff \<noteq> 0" by linarith
  have "sum_list (make_symmetric (normalize_taps coeff)) = 1"
    using ne s by (rule sum_list_normalized_kernel)
  moreover have "rev (make_symmetric (normalize_taps coeff)) = make_symmetric (normalize_taps coeff)"
    by (rule rev_make_symmetric) (use ne in \<open>simp add: normalize_taps_def Let_def\<close>)
  moreover have "make_symmetric (normalize_taps coeff) ! i
      = make_symmetric (normalize_taps coeff) ! (length (make_symmetric (normalize_taps coeff)) - 1 - i)"
    if "i < length (make_symmetric (normalize_taps coeff))" for i
    by (rule make_symmetric_nth[OF _ that]) (use ne in \<open>simp add: normalize_taps_def Let_def\<close>)
  ultimately show ?thesis using eq by blast
qed

subsection \<open>Overflow of the seed taps in double arithmetic\<close>

lemma exp_720_lower: "270 ^ 128 \<le> exp (720 :: real)"
proof -
  have "(145 / 128 :: real) \<le> exp (1 / 8)"
    using exp_lower_Taylor_quadratic[of "1 / 8 :: real"] by (simp add: power2_eq_square)
  then have "(145 / 128 :: real) ^ 5760 \<le> exp (1 / 8) ^ 5760"
    by (intro power_mono) simp_all
  also have "\<dots> = exp (of_nat 5760 * (1 / 8 :: real))"
    by (rule exp_of_nat_mult[symmetric])
  also have "\<dots> = exp 720" by simp
  finally have a: "(145 / 128 :: real) ^ 5760 \<le> exp 720" .
  have "(270 :: real) \<le> (145 / 128) ^ 45" by (simp add: power_divide)
  then have "(270 :: real) ^ 128 \<le> ((145 / 128) ^ 45) ^ 128"
    by (intro power_mono) simp_all
  also have "\<dots> = (145 / 128 :: real) ^ 5760"
    by (simp add: power_mult[symmetric])
  finally show ?thesis using a by simp
qed

lemma sqrt_720: "0 < sqrt (720 :: real) \<and> sqrt 720 \<le> 27"
proof -
  have "sqrt (720 :: real) \<le> 27" by (rule real_le_lsqrt) simp_all
  then show ?thesis by simp
qed

lemma overflow_factor:
  assumes "39 / 100 \<le> (q :: real)"
  shows "DBL_MAX < exp 720 / sqrt 720 * q"
proof -
  have "DBL_MAX < 270 ^ 128 / 27 * (39 / 100 :: real)"
    by (simp add: DBL_MAX_def)
  also have "\<dots> \<le> exp 720 / 27 * (39 / 100)"
    using exp_720_lower by (simp add: divide_right_mono)
  also have "\<dots> \<le> exp 720 / sqrt 720 * (39 / 100)"
    using sqrt_720 by (intro mult_right_mono divide_left_mono) simp_all
  also have "\<dots> \<le> exp 720 / sqrt 720 * q"
    using assms sqrt_720 by (intro mult_left_mono) simp_all
  finally show ?thesis .
qed

text \<open>
  Claim C1 says that for every variance and spacing above 0 the order-0 kernel sums to 1
  within \<open>1e-10\<close> and is symmetric. For variance 720 and spacing 1 the pixel variance is
  720, and the exact values of \<^verbatim>\<open>std::exp(d)\<close> in \<^verbatim>\<open>ModifiedBesselI0\<close> and
  \<^verbatim>\<open>ModifiedBesselI1\<close>, and of both results, are above the largest finite double. In double
  arithmetic they are infinite, so \<^verbatim>\<open>coeff[0]\<close>, \<^verbatim>\<open>coeff[1]\<close> and the sums are infinite,
  the loop is not entered, and the normalization divides infinity by infinity: the three
  taps returned are NaN, which neither sum to 1 nor compare equal to each other.
\<close>

theorem C1_overflow_at_variance_720:
  "DBL_MAX < exp (720 / (1 * 1) :: real)
   \<and> DBL_MAX < ModifiedBesselI0 (720 / (1 * 1))
   \<and> DBL_MAX < ModifiedBesselI1 (720 / (1 * 1))"
proof -
  have "DBL_MAX < (270 :: real) ^ 128" by (simp add: DBL_MAX_def)
  then have e: "DBL_MAX < exp (720 :: real)" using exp_720_lower by simp
  have ab: "\<bar>720 :: real\<bar> = 720" by simp
  have big: "\<not> (720 :: real) < 3.75" by simp
  have pos: "\<not> (720 :: real) < 0.0" by simp
  have i0: "DBL_MAX < ModifiedBesselI0 720"
    unfolding ModifiedBesselI0_def Let_def ab if_not_P[OF big]
    by (rule overflow_factor) simp
  have "DBL_MAX < exp 720 / sqrt 720 * (0.39894228 + 3.75 / 720 * (- 0.03988024 + 3.75 / 720 * (- 0.00362018
       + 3.75 / 720 * (0.00163801 + 3.75 / 720 * (- 0.01031555 + 3.75 / 720 *
         (0.02282967 + 3.75 / 720 * (- 0.02895312 + 3.75 / 720 * (0.01787654 - 3.75 / 720 * 0.00420059))))))))"
    by (rule overflow_factor) simp
  then have i1: "DBL_MAX < ModifiedBesselI1 720"
    unfolding ModifiedBesselI1_def Let_def ab if_not_P[OF big] if_not_P[OF pos]
    by (simp only: mult.commute[of _ "exp 720 / sqrt 720"])
  show ?thesis using e i0 i1 by simp
qed

subsection \<open>The derivative kernels\<close>

lemma length_pad_clamped:
  "1 \<le> N \<Longrightarrow> length (pad_clamped coeff N) = length coeff + 4 * N - 2"
  by (auto simp: pad_clamped_def Let_def)

lemma correlate_in_range:
  "(\<And>j. j \<in> set js \<Longrightarrow> length d div 2 \<le> i + j \<and> i + j - length d div 2 < length pc) \<Longrightarrow>
   correlate pc d i js conv
     = Inr (conv + (\<Sum>j\<leftarrow>js. pc ! (i + j - length d div 2) * d ! (length d - 1 - j)))"
proof (induction js arbitrary: conv)
  case Nil
  then show ?case by simp
next
  case (Cons j js)
  have r: "length d div 2 \<le> i + j" "i + j - length d div 2 < length pc"
    using Cons.prems[of j] by simp_all
  have k: "nat (int i + int j - int (length d div 2)) = i + j - length d div 2"
    using r by linarith
  have ok: "\<not> (int i + int j - int (length d div 2) < 0
                \<or> int (length pc) \<le> int i + int j - int (length d div 2))"
    using r by linarith
  have "correlate pc d i (j # js) conv
      = correlate pc d i js (conv + pc ! (i + j - length d div 2) * d ! (length d - 1 - j))"
    using ok k by (simp add: Let_def)
  also have "\<dots> = Inr (conv + pc ! (i + j - length d div 2) * d ! (length d - 1 - j)
         + (\<Sum>j\<leftarrow>js. pc ! (i + j - length d div 2) * d ! (length d - 1 - j)))"
    by (rule Cons.IH) (use Cons.prems in simp)
  finally show ?case by (simp add: add.assoc)
qed

lemma convolve_in_range:
  "(\<And>i. i \<in> set idxs \<Longrightarrow> correlate pc d i [0..<length d] 0 = Inr (f i)) \<Longrightarrow>
   convolve nv pc d idxs coeff = Inr (coeff @ map (\<lambda>i. nv * f i) idxs)"
proof (induction idxs arbitrary: coeff)
  case Nil
  then show ?case by simp
next
  case (Cons i idxs)
  have "correlate pc d i [0..<length d] 0 = Inr (f i)" using Cons.prems[of i] by simp
  then have "convolve nv pc d (i # idxs) coeff = convolve nv pc d idxs (coeff @ [nv * f i])"
    by simp
  also have "\<dots> = Inr ((coeff @ [nv * f i]) @ map (\<lambda>i. nv * f i) idxs)"
    by (rule Cons.IH) (use Cons.prems in simp)
  finally show ?case by simp
qed


lemma GenerateCoefficients_value:
  assumes ord: "0 < m_Order p" and od: "odd (length d)" and len: "3 \<le> length d"
    and g: "GenerateGaussianCoefficients p = Inr (g, ws)"
  shows "GenerateCoefficients p d =
     Inr (map (\<lambda>i. ((if m_NormalizeAcrossScale p then std_pow (m_Variance p) (real (m_Order p) / 2)
                         else 1)
                       / m_Spacing p ^ m_Order p)
                 * (\<Sum>j<length d. pad_clamped g ((length d - 1) div 2) ! (i + j - length d div 2)
                                     * d ! (length d - 1 - j)))
              [(length d - 1) div 2..<length g + 3 * ((length d - 1) div 2) - 2], ws)"
proof -
  define N where "N = (length d - 1) div 2"
  define pc where "pc = pad_clamped g N"
  define f where "f = (\<lambda>i. \<Sum>j<length d. pc ! (i + j - length d div 2) * d ! (length d - 1 - j))"
  define nv where "nv = (if m_NormalizeAcrossScale p then std_pow (m_Variance p) (real (m_Order p) / 2)
                         else 1)
                       / m_Spacing p ^ m_Order p"
  have N1: "1 \<le> N" using len by (simp add: N_def)
  have half: "length d div 2 = N" and full: "length d = 2 * N + 1"
    using od len unfolding N_def by (auto elim!: oddE)
  have L: "length pc = length g + 4 * N - 2"
    unfolding pc_def using N1 by (rule length_pad_clamped)
  have corr: "correlate pc d i [0..<length d] 0 = Inr (f i)" if "i \<in> set [N..<length pc - N]" for i
  proof -
    have "correlate pc d i [0..<length d] 0
        = Inr (0 + (\<Sum>j\<leftarrow>[0..<length d]. pc ! (i + j - length d div 2) * d ! (length d - 1 - j)))"
    proof (rule correlate_in_range)
      fix j assume "j \<in> set [0..<length d]"
      then have "j \<le> 2 * N" using full by auto
      moreover have "N \<le> i" "i < length pc - N" using that by simp_all
      ultimately show "length d div 2 \<le> i + j \<and> i + j - length d div 2 < length pc"
        unfolding half by linarith
    qed
    also have "(\<Sum>j\<leftarrow>[0..<length d]. pc ! (i + j - length d div 2) * d ! (length d - 1 - j))
        = (\<Sum>j<length d. pc ! (i + j - length d div 2) * d ! (length d - 1 - j))"
      by (simp add: interv_sum_list_conv_sum_set_nat lessThan_atLeast0)
    finally show ?thesis by (simp add: f_def)
  qed
  have conv: "convolve nv pc d [N..<length pc - N] [] = Inr ([] @ map (\<lambda>i. nv * f i) [N..<length pc - N])"
    by (rule convolve_in_range) (rule corr)
  have bound: "length pc - N = length g + 3 * N - 2" using L N1 by linarith
  have N0: "N \<noteq> 0" using N1 by simp
  have "GenerateCoefficients p d = Inr (map (\<lambda>i. nv * f i) [N..<length pc - N], ws)"
    using ord N0 conv unfolding GenerateCoefficients_def g N_def pc_def nv_def
    by (auto simp: Let_def)
  then show ?thesis
    unfolding bound unfolding f_def nv_def pc_def N_def .
qed


text \<open>
  Claim C3, as stated, fails: with a five-tap derivative operator (radius \<open>N = 2\<close>, the
  size of the order-3 central difference) the kernel of order 3 is two taps longer than the
  order-0 kernel it was derived from, so the two lengths differ.
\<close>

theorem C3_counterexample:
  "length (kernel_of (GenerateCoefficients
       \<lparr>m_Variance = 1, m_Spacing = 1, m_MaximumError = 0.01, m_MaximumKernelWidth = 32,
        m_Order = 3, m_NormalizeAcrossScale = False\<rparr> [0.5, - 1, 0, 1, - 0.5]))
   = length (kernel_of (GenerateGaussianCoefficients
       \<lparr>m_Variance = 1, m_Spacing = 1, m_MaximumError = 0.01, m_MaximumKernelWidth = 32,
        m_Order = 3, m_NormalizeAcrossScale = False\<rparr>)) + 2
   \<and> length (kernel_of (GenerateCoefficients
       \<lparr>m_Variance = 1, m_Spacing = 1, m_MaximumError = 0.01, m_MaximumKernelWidth = 32,
        m_Order = 3, m_NormalizeAcrossScale = False\<rparr> [0.5, - 1, 0, 1, - 0.5]))
   \<noteq> length (kernel_of (GenerateGaussianCoefficients
       \<lparr>m_Variance = 1, m_Spacing = 1, m_MaximumError = 0.01, m_MaximumKernelWidth = 32,
        m_Order = 3, m_NormalizeAcrossScale = False\<rparr>))"
proof -
  define p where "p = \<lparr>m_Variance = 1, m_Spacing = 1, m_MaximumError = 0.01,
        m_MaximumKernelWidth = 32, m_Order = 3, m_NormalizeAcrossScale = False\<rparr>"
  define d :: "real list" where "d = [0.5, - 1, 0, 1, - 0.5]"
  obtain c ws where g: "GenerateGaussianCoefficients p = Inr (make_symmetric (normalize_taps c), ws)"
    using GenerateGaussianCoefficients_ok by blast
  have "0 < m_Order p" "odd (length d)" "3 \<le> length d" by (simp_all add: p_def d_def)
  from GenerateCoefficients_value[OF this g]
  have "length (kernel_of (GenerateCoefficients p d))
      = length (make_symmetric (normalize_taps c)) + 2"
    by (simp add: kernel_of_def d_def)
  moreover have "length (kernel_of (GenerateGaussianCoefficients p))
      = length (make_symmetric (normalize_taps c))"
    by (simp add: g kernel_of_def)
  ultimately have "length (kernel_of (GenerateCoefficients p d))
      = length (kernel_of (GenerateGaussianCoefficients p)) + 2
    \<and> length (kernel_of (GenerateCoefficients p d))
      \<noteq> length (kernel_of (GenerateGaussianCoefficients p))"
    by simp
  then show ?thesis unfolding p_def d_def .
qed

text \<open>
  Claim C3, amended. For every order \<open>k > 0\<close> and every derivative operator with an odd
  number \<open>2 * N + 1 \<ge> 3\<close> of taps, \<^verbatim>\<open>GenerateCoefficients\<close> succeeds and returns a kernel
  whose length is the length of the unpadded order-0 Gaussian kernel plus \<open>2 * N - 2\<close>: the
  output keeps \<open>N - 1\<close> padded positions on each side, as the comment in the source says.
  The two lengths are equal exactly when \<open>N = 1\<close>.
\<close>

theorem C3_amended_length:
  assumes "0 < m_Order p" and "odd (length derivOp)" and "3 \<le> length derivOp"
  shows "\<exists>g ks ws. GenerateGaussianCoefficients p = Inr (g, ws)
           \<and> GenerateCoefficients p derivOp = Inr (ks, ws)
           \<and> length ks = length g + 2 * ((length derivOp - 1) div 2) - 2"
proof -
  obtain c ws where g: "GenerateGaussianCoefficients p = Inr (make_symmetric (normalize_taps c), ws)"
    using GenerateGaussianCoefficients_ok by blast
  have N: "1 \<le> (length derivOp - 1) div 2" using assms(3) by simp
  show ?thesis
    using GenerateCoefficients_value[OF assms g] g N by auto
qed

text \<open>The amended claim at order 1 with the three-tap operator: the lengths are equal.\<close>

theorem C3_amended_length_witness:
  "\<exists>g ks ws.
      GenerateGaussianCoefficients
        \<lparr>m_Variance = 4, m_Spacing = 2, m_MaximumError = 0.01, m_MaximumKernelWidth = 32,
         m_Order = 1, m_NormalizeAcrossScale = True\<rparr> = Inr (g, ws)
    \<and> GenerateCoefficients
        \<lparr>m_Variance = 4, m_Spacing = 2, m_MaximumError = 0.01, m_MaximumKernelWidth = 32,
         m_Order = 1, m_NormalizeAcrossScale = True\<rparr> [0.5, 0, - 0.5] = Inr (ks, ws)
    \<and> length ks = length g"
  using C3_amended_length [of "\<lparr>m_Variance = 4, m_Spacing = 2, m_MaximumError = 0.01,
         m_MaximumKernelWidth = 32, m_Order = 1, m_NormalizeAcrossScale = True\<rparr>" "[0.5, 0, - 0.5]"]
  by simp

text \<open>
  The model of \<^verbatim>\<open>std::pow\<close> at a negative base with an integral exponent:
  \<^verbatim>\<open>std::pow(-4, 2 / 2.0)\<close> is \<open>-4\<close>.
\<close>

lemma std_pow_negative_base: "std_pow (- 4) (real 2 / 2) = - 4"
  by (simp add: std_pow_def)


text \<open>
  Claim C6. For every order \<open>k > 0\<close>, every tap of the kernel returned by
  \<^verbatim>\<open>GenerateCoefficients\<close> is the scale factor
  \<open>(if normalizeAcrossScale then variance powr (k / 2) else 1) / spacing ^ k\<close> times the
  correlation of the clamped, padded Gaussian kernel with the reversed derivative operator
  at that position. The variance is not negative and the spacing is not zero: outside that
  range the source's factor is NaN or infinite (or, for a negative variance and an even
  order, the integer power).
\<close>

theorem C6_taps_carry_scale_factor:
  assumes "0 < m_Order p" and "odd (length derivOp)" and "3 \<le> length derivOp"
    and "0 \<le> m_Variance p" and "m_Spacing p \<noteq> 0"
    and "i < length (kernel_of (GenerateCoefficients p derivOp))"
  shows "kernel_of (GenerateCoefficients p derivOp) ! i =
      ((if m_NormalizeAcrossScale p then m_Variance p powr (real (m_Order p) / 2) else 1)
         / m_Spacing p ^ m_Order p)
      * (\<Sum>j<length derivOp.
           pad_clamped (kernel_of (GenerateGaussianCoefficients p)) ((length derivOp - 1) div 2)
             ! ((length derivOp - 1) div 2 + i + j - length derivOp div 2)
           * derivOp ! (length derivOp - 1 - j))"
proof -
  obtain c ws where g: "GenerateGaussianCoefficients p = Inr (make_symmetric (normalize_taps c), ws)"
    using GenerateGaussianCoefficients_ok by blast
  note v = GenerateCoefficients_value[OF assms(1-3) g]
  have pw: "std_pow (m_Variance p) (real (m_Order p) / 2) = m_Variance p powr (real (m_Order p) / 2)"
    using assms(1,4) by (auto simp: std_pow_def)
  have "i < length [(length derivOp - 1) div 2..<
            length (make_symmetric (normalize_taps c)) + 3 * ((length derivOp - 1) div 2) - 2]"
    using assms(6) unfolding v by (simp add: kernel_of_def)
  then have i: "(length derivOp - 1) div 2 + i
      < length (make_symmetric (normalize_taps c)) + 3 * ((length derivOp - 1) div 2) - 2"
    by simp
  then have "i < length (make_symmetric (normalize_taps c)) + 3 * ((length derivOp - 1) div 2) - 2
                 - (length derivOp - 1) div 2"
    by simp
  then show ?thesis
    unfolding v g pw using nth_upt[OF i] by (simp add: kernel_of_def)
qed

lemma second_derivative_kernel_nonempty:
  "0 < length (kernel_of (GenerateCoefficients
        \<lparr>m_Variance = 9, m_Spacing = 2, m_MaximumError = 0.01, m_MaximumKernelWidth = 32,
         m_Order = 2, m_NormalizeAcrossScale = True\<rparr> [1, - 2, 1]))"
proof -
  define p where "p = \<lparr>m_Variance = 9, m_Spacing = 2, m_MaximumError = 0.01,
         m_MaximumKernelWidth = 32, m_Order = 2, m_NormalizeAcrossScale = True\<rparr>"
  obtain c ws where g: "GenerateGaussianCoefficients p = Inr (make_symmetric (normalize_taps c), ws)"
    and c: "2 \<le> length c"
    using GenerateGaussianCoefficients_ok by blast
  have "0 < m_Order p" "odd (length [1, - 2, 1 :: real])" "3 \<le> length [1, - 2, 1 :: real]"
    by (simp_all add: p_def)
  from GenerateCoefficients_value[OF this g] c
  show ?thesis unfolding p_def[symmetric]
    by (simp add: kernel_of_def length_make_symmetric length_normalize_taps)
qed

text \<open>
  The first tap of the order-2 kernel for variance 9 and spacing 2, normalized across scale:
  the factor is \<open>9 powr 1 / 2 ^ 2 = 9 / 4\<close>.
\<close>

theorem C6_witness:
  "kernel_of (GenerateCoefficients
        \<lparr>m_Variance = 9, m_Spacing = 2, m_MaximumError = 0.01, m_MaximumKernelWidth = 32,
         m_Order = 2, m_NormalizeAcrossScale = True\<rparr> [1, - 2, 1]) ! 0 =
      (9 / 4)
      * (\<Sum>j<length [1, - 2, 1 :: real].
           pad_clamped (kernel_of (GenerateGaussianCoefficients
               \<lparr>m_Variance = 9, m_Spacing = 2, m_MaximumError = 0.01, m_MaximumKernelWidth = 32,
                m_Order = 2, m_NormalizeAcrossScale = True\<rparr>)) 1 ! (1 + 0 + j - 1)
           * [1, - 2, 1] ! (3 - 1 - j))"
  using C6_taps_carry_scale_factor [of "\<lparr>m_Variance = 9, m_Spacing = 2, m_MaximumError = 0.01,
         m_MaximumKernelWidth = 32, m_Order = 2, m_NormalizeAcrossScale = True\<rparr>" "[1, - 2, 1]" 0]
    second_derivative_kernel_nonempty
  by simp

subsection \<open>Truncation at the maximum kernel width\<close>

text \<open>
  Whenever the truncation warning is emitted, the one-sided vector holds one tap more than
  the maximum width (three taps when the maximum width is below 2), whatever the
  parameters are.
\<close>

lemma accumulate_taps_truncation_length:
  "accumulate_taps et pv cap maxW i coeff sumv = Inr (coeff', ws) \<Longrightarrow>
   TruncationWarning \<in> set ws \<Longrightarrow> 2 \<le> length coeff \<Longrightarrow> length coeff \<le> max maxW 2 \<Longrightarrow>
   length coeff' = max maxW 2 + 1"
proof (induction et pv cap maxW i coeff sumv rule: accumulate_taps.induct)
  case (1 et pv cap maxW i coeff sumv)
  show ?case
  proof (cases "sumv < cap")
    case False
    with "1.prems" show ?thesis by (simp add: accumulate_taps.simps)
  next
    case True
    show ?thesis
    proof (cases "ModifiedBesselI (int i) pv")
      case (Inl e)
      with True "1.prems" show ?thesis by (simp add: accumulate_taps.simps)
    next
      case (Inr b)
      show ?thesis
        using True Inr "1.IH"[OF True Inr refl refl] "1.prems"
        by (subst (asm) accumulate_taps.simps) (auto simp: Let_def split: if_splits)
    qed
  qed
qed

lemma truncated_kernel_length:
  assumes "GenerateGaussianCoefficients p = Inr (k, ws)" and "TruncationWarning \<in> set ws"
  shows "length k = 2 * max (m_MaximumKernelWidth p) 2 + 1"
proof -
  define pv where "pv = m_Variance p / (m_Spacing p * m_Spacing p)"
  define c1 where "c1 = [exp (- pv) * ModifiedBesselI0 pv] @ [exp (- pv) * ModifiedBesselI1 pv]"
  define s1 where "s1 = [exp (- pv) * ModifiedBesselI0 pv] ! 0 + c1 ! 1 * 2.0"
  obtain coeff ws' where
    r: "accumulate_taps (exp (- pv)) pv (1.0 - m_MaximumError p) (m_MaximumKernelWidth p) 2 c1 s1
          = Inr (coeff, ws')"
    using accumulate_taps_ok[of 2] by blast
  have eq: "GenerateGaussianCoefficients p = Inr (make_symmetric (normalize_taps coeff), ws')"
    unfolding GenerateGaussianCoefficients_def Let_def
    using r unfolding pv_def c1_def s1_def by simp
  with assms have k: "k = make_symmetric (normalize_taps coeff)" and ws: "TruncationWarning \<in> set ws'"
    by simp_all
  have "length coeff = max (m_MaximumKernelWidth p) 2 + 1"
    using r ws by (rule accumulate_taps_truncation_length) (simp_all add: c1_def)
  then show ?thesis
    unfolding k by (simp add: length_make_symmetric length_normalize_taps)
qed

subsection \<open>A truncated run, evaluated\<close>

lemma bessel_loop_numeral:
  "bessel_loop n toy (numeral k) s
     = bessel_loop n toy (pred_numeral k) (bessel_body n toy (numeral k) s)"
  by (simp add: numeral_eq_Suc)

lemma bessel_loop_Suc_0:
  "bessel_loop n toy (Suc 0) s = bessel_body n toy (Suc 0) s"
  by simp

lemma bessel_body_explicit:
  "bessel_body n toy j \<lparr>accumulator = a, qi = q, qip = r, iterations = c\<rparr> =
    (let qim = r + real j * toy * q in
     if \<bar>qim\<bar> > 10 ^ 10 then
        \<lparr>accumulator = (if int j = n then q * (1 / 10 ^ 10) else a * (1 / 10 ^ 10)),
         qi = qim * (1 / 10 ^ 10), qip = q * (1 / 10 ^ 10), iterations = Suc c\<rparr>
     else \<lparr>accumulator = (if int j = n then q else a),
         qi = qim, qip = q, iterations = Suc c\<rparr>)"
  by (simp add: bessel_body_def Let_def)

lemma floor_10_sqrt:
  assumes k: "0 \<le> k" and lo: "k\<^sup>2 \<le> 100 * n" and hi: "100 * n < (k + 1)\<^sup>2"
  shows "\<lfloor>10 * sqrt (real_of_int n)\<rfloor> = k"
proof -
  have eq: "10 * sqrt (real_of_int n) = sqrt (real_of_int (100 * n))"
    by (simp add: real_sqrt_mult)
  have "real_of_int k \<le> sqrt (real_of_int (100 * n))"
  proof (rule real_le_rsqrt)
    have "real_of_int (k\<^sup>2) \<le> real_of_int (100 * n)"
      using lo by (rule of_int_le_iff[THEN iffD2])
    then show "(real_of_int k)\<^sup>2 \<le> real_of_int (100 * n)" by simp
  qed
  moreover have "sqrt (real_of_int (100 * n)) < real_of_int (k + 1)"
  proof (rule real_less_lsqrt)
    have "real_of_int (100 * n) < real_of_int ((k + 1)\<^sup>2)"
      using hi by (rule of_int_less_iff[THEN iffD2])
    then show "real_of_int (100 * n) < (real_of_int (k + 1))\<^sup>2" by simp
    show "0 \<le> real_of_int (k + 1)" using k by simp
  qed
  ultimately show ?thesis unfolding eq by (simp add: floor_eq_iff)
qed

lemma ModifiedBesselI_ratio:
  assumes n: "2 \<le> n" and y: "0 < y"
    and k: "\<lfloor>10 * sqrt (real_of_int n)\<rfloor> = k"
    and s: "s = bessel_loop n (2 / y) (nat (2 * (n + k)))
                  \<lparr>accumulator = 0, qi = 1, qip = 0, iterations = 0\<rparr>"
    and b: "0 < qi s \<and> qi s < 2 * accumulator s \<and> accumulator s < qi s"
  shows "\<exists>r. ModifiedBesselI n y = Inr (r * ModifiedBesselI0 y) \<and> 1 / 2 < r \<and> r < 1"
proof -
  have "ModifiedBesselI n y = Inr (accumulator s / qi s * ModifiedBesselI0 y)"
    using n y unfolding s k[symmetric]
    by (simp add: ModifiedBesselI_def ModifiedBesselI_run_def Let_def)
  moreover have "1 / 2 < accumulator s / qi s \<and> accumulator s / qi s < 1"
    using b by (simp add: field_simps)
  ultimately show ?thesis by blast
qed

lemma ratio_2:
  "\<exists>r. ModifiedBesselI 2 100 = Inr (r * ModifiedBesselI0 100) \<and> 1 / 2 < r \<and> r < 1"
proof -
  define s where "s = bessel_loop 2 (2 / 100) 32
                  \<lparr>accumulator = 0, qi = 1, qip = 0, iterations = 0\<rparr>"
  have "let s' = bessel_loop 2 (2 / 100) 32
                   \<lparr>accumulator = 0, qi = 1, qip = 0, iterations = 0\<rparr>
        in 0 < qi s' \<and> qi s' < 2 * accumulator s' \<and> accumulator s' < qi s'"
    by (simp add: bessel_loop_numeral bessel_loop_Suc_0 bessel_body_explicit
          del: bessel_loop.simps)
  then have b: "0 < qi s \<and> qi s < 2 * accumulator s \<and> accumulator s < qi s"
    unfolding s_def Let_def .
  show ?thesis
  proof (rule ModifiedBesselI_ratio[OF _ _ _ _ b])
    show "\<lfloor>10 * sqrt (real_of_int 2)\<rfloor> = 14" by (rule floor_10_sqrt) simp_all
    show "s = bessel_loop 2 (2 / 100) (nat (2 * (2 + 14)))
                \<lparr>accumulator = 0, qi = 1, qip = 0, iterations = 0\<rparr>"
      by (simp add: s_def)
  qed simp_all
qed

lemma ratio_3:
  "\<exists>r. ModifiedBesselI 3 100 = Inr (r * ModifiedBesselI0 100) \<and> 1 / 2 < r \<and> r < 1"
proof -
  define s where "s = bessel_loop 3 (2 / 100) 40
                  \<lparr>accumulator = 0, qi = 1, qip = 0, iterations = 0\<rparr>"
  have "let s' = bessel_loop 3 (2 / 100) 40
                   \<lparr>accumulator = 0, qi = 1, qip = 0, iterations = 0\<rparr>
        in 0 < qi s' \<and> qi s' < 2 * accumulator s' \<and> accumulator s' < qi s'"
    by (simp add: bessel_loop_numeral bessel_loop_Suc_0 bessel_body_explicit
          del: bessel_loop.simps)
  then have b: "0 < qi s \<and> qi s < 2 * accumulator s \<and> accumulator s < qi s"
    unfolding s_def Let_def .
  show ?thesis
  proof (rule ModifiedBesselI_ratio[OF _ _ _ _ b])
    show "\<lfloor>10 * sqrt (real_of_int 3)\<rfloor> = 17" by (rule floor_10_sqrt) simp_all
    show "s = bessel_loop 3 (2 / 100) (nat (2 * (3 + 17)))
                \<lparr>accumulator = 0, qi = 1, qip = 0, iterations = 0\<rparr>"
      by (simp add: s_def)
  qed simp_all
qed

lemma ratio_4:
  "\<exists>r. ModifiedBesselI 4 100 = Inr (r * ModifiedBesselI0 100) \<and> 1 / 2 < r \<and> r < 1"
proof -
  define s where "s = bessel_loop 4 (2 / 100) 48
                  \<lparr>accumulator = 0, qi = 1, qip = 0, iterations = 0\<rparr>"
  have "let s' = bessel_loop 4 (2 / 100) 48
                   \<lparr>accumulator = 0, qi = 1, qip = 0, iterations = 0\<rparr>
        in 0 < qi s' \<and> qi s' < 2 * accumulator s' \<and> accumulator s' < qi s'"
    by (simp add: bessel_loop_numeral bessel_loop_Suc_0 bessel_body_explicit
          del: bessel_loop.simps)
  then have b: "0 < qi s \<and> qi s < 2 * accumulator s \<and> accumulator s < qi s"
    unfolding s_def Let_def .
  show ?thesis
  proof (rule ModifiedBesselI_ratio[OF _ _ _ _ b])
    show "\<lfloor>10 * sqrt (real_of_int 4)\<rfloor> = 20" by (rule floor_10_sqrt) simp_all
    show "s = bessel_loop 4 (2 / 100) (nat (2 * (4 + 20)))
                \<lparr>accumulator = 0, qi = 1, qip = 0, iterations = 0\<rparr>"
      by (simp add: s_def)
  qed simp_all
qed

lemma ratio_5:
  "\<exists>r. ModifiedBesselI 5 100 = Inr (r * ModifiedBesselI0 100) \<and> 1 / 2 < r \<and> r < 1"
proof -
  define s where "s = bessel_loop 5 (2 / 100) 54
                  \<lparr>accumulator = 0, qi = 1, qip = 0, iterations = 0\<rparr>"
  have "let s' = bessel_loop 5 (2 / 100) 54
                   \<lparr>accumulator = 0, qi = 1, qip = 0, iterations = 0\<rparr>
        in 0 < qi s' \<and> qi s' < 2 * accumulator s' \<and> accumulator s' < qi s'"
    by (simp add: bessel_loop_numeral bessel_loop_Suc_0 bessel_body_explicit
          del: bessel_loop.simps)
  then have b: "0 < qi s \<and> qi s < 2 * accumulator s \<and> accumulator s < qi s"
    unfolding s_def Let_def .
  show ?thesis
  proof (rule ModifiedBesselI_ratio[OF _ _ _ _ b])
    show "\<lfloor>10 * sqrt (real_of_int 5)\<rfloor> = 22" by (rule floor_10_sqrt) simp_all
    show "s = bessel_loop 5 (2 / 100) (nat (2 * (5 + 22)))
                \<lparr>accumulator = 0, qi = 1, qip = 0, iterations = 0\<rparr>"
      by (simp add: s_def)
  qed simp_all
qed

lemma seed_taps:
  "39 / 1000 < exp (- 100) * ModifiedBesselI0 100 \<and> exp (- 100) * ModifiedBesselI0 100 < 40 / 1000
   \<and> 39 / 1000 < exp (- 100) * ModifiedBesselI1 100 \<and> exp (- 100) * ModifiedBesselI1 100 < 40 / 1000"
proof -
  have sq: "sqrt 100 = (10::real)"
    using real_sqrt_abs[of 10] by simp
  have ex: "exp 100 * exp (- 100) = (1::real)"
    by (simp add: exp_minus)
  show ?thesis
    by (simp add: ModifiedBesselI0_def ModifiedBesselI1_def Let_def sq ex)
qed

lemma accumulate_taps_continue:
  assumes "sumv < cap" and "ModifiedBesselI (int i) pv = Inr b" and "length coeff = i"
    and "\<not> et * b < (sumv + et * b * 2) * epsilon" and "length coeff < maxW"
  shows "accumulate_taps et pv cap maxW i coeff sumv
       = accumulate_taps et pv cap maxW (i + 1) (coeff @ [et * b]) (sumv + et * b * 2)"
proof -
  have "(coeff @ [et * b]) ! i = et * b" using assms(3) by auto
  with assms show ?thesis by (subst accumulate_taps.simps) (simp add: Let_def)
qed

lemma accumulate_taps_truncate:
  assumes "sumv < cap" and "ModifiedBesselI (int i) pv = Inr b" and "length coeff = i"
    and "\<not> et * b < (sumv + et * b * 2) * epsilon" and "maxW \<le> length coeff"
  shows "accumulate_taps et pv cap maxW i coeff sumv = Inr (coeff @ [et * b], [TruncationWarning])"
proof -
  have "(coeff @ [et * b]) ! i = et * b" using assms(3) by auto
  with assms show ?thesis by (subst accumulate_taps.simps) (simp add: Let_def)
qed

lemma tap_not_stalled:
  assumes "1 / 100 \<le> t" and "0 \<le> s" and "s \<le> 1"
  shows "\<not> t < (s + t * 2) * epsilon"
proof -
  have e: "epsilon \<le> 1 / 1000" by (simp add: epsilon_def)
  have "(s + t * 2) * epsilon \<le> (s + t * 2) * (1 / 1000)"
    using assms e by (intro mult_left_mono) auto
  also have "\<dots> \<le> t" using assms by simp
  finally show ?thesis by simp
qed

lemma truncation_at_width_5:
  "\<exists>coeff. accumulate_taps (exp (- 100)) 100 (99 / 100) 5 2
        [exp (- 100) * ModifiedBesselI0 100, exp (- 100) * ModifiedBesselI1 100]
        (exp (- 100) * ModifiedBesselI0 100 + exp (- 100) * ModifiedBesselI1 100 * 2)
      = Inr (coeff, [TruncationWarning]) \<and> length coeff = 6"
proof -
  define et :: real where "et = exp (- 100)"
  define c0 where "c0 = et * ModifiedBesselI0 100"
  define c1 where "c1 = et * ModifiedBesselI1 100"
  have c0: "39 / 1000 < c0" "c0 < 40 / 1000" and c1: "39 / 1000 < c1" "c1 < 40 / 1000"
    using seed_taps by (simp_all add: c0_def c1_def et_def)
  obtain r2 where b2: "ModifiedBesselI (int 2) 100 = Inr (r2 * ModifiedBesselI0 100)"
    and r2: "1 / 2 < r2" "r2 < 1" using ratio_2 by auto
  obtain r3 where b3: "ModifiedBesselI (int 3) 100 = Inr (r3 * ModifiedBesselI0 100)"
    and r3: "1 / 2 < r3" "r3 < 1" using ratio_3 by auto
  obtain r4 where b4: "ModifiedBesselI (int 4) 100 = Inr (r4 * ModifiedBesselI0 100)"
    and r4: "1 / 2 < r4" "r4 < 1" using ratio_4 by auto
  obtain r5 where b5: "ModifiedBesselI (int 5) 100 = Inr (r5 * ModifiedBesselI0 100)"
    and r5: "1 / 2 < r5" "r5 < 1" using ratio_5 by auto
  have tap: "et * (r * ModifiedBesselI0 100) = r * c0" for r by (simp add: c0_def)
  have lo: "1 / 100 \<le> r * c0" if "1 / 2 < r" for r
  proof -
    have "1 / 2 * (39 / 1000) \<le> r * c0" using that c0 by (intro mult_mono) auto
    then show ?thesis by simp
  qed
  have hi: "r * c0 \<le> 40 / 1000" if "1 / 2 < r" "r < 1" for r
  proof -
    have "r * c0 \<le> 1 * (40 / 1000)" using that c0 by (intro mult_mono) auto
    then show ?thesis by simp
  qed
  note t2 = lo[OF r2(1)] hi[OF r2] and t3 = lo[OF r3(1)] hi[OF r3]
    and t4 = lo[OF r4(1)] hi[OF r4] and t5 = lo[OF r5(1)] hi[OF r5]
  have "accumulate_taps et 100 (99 / 100) 5 2 [c0, c1] (c0 + c1 * 2)
      = accumulate_taps et 100 (99 / 100) 5 (2 + 1) ([c0, c1] @ [et * (r2 * ModifiedBesselI0 100)])
          (c0 + c1 * 2 + et * (r2 * ModifiedBesselI0 100) * 2)"
    using c0 c1 t2 by (intro accumulate_taps_continue b2 tap_not_stalled) (simp_all add: tap)
  also have "\<dots> = accumulate_taps et 100 (99 / 100) 5 3 [c0, c1, r2 * c0] (c0 + c1 * 2 + r2 * c0 * 2)"
    by (simp add: tap)
  also have "\<dots> = accumulate_taps et 100 (99 / 100) 5 (3 + 1)
          ([c0, c1, r2 * c0] @ [et * (r3 * ModifiedBesselI0 100)])
          (c0 + c1 * 2 + r2 * c0 * 2 + et * (r3 * ModifiedBesselI0 100) * 2)"
    using c0 c1 t2 t3 by (intro accumulate_taps_continue b3 tap_not_stalled) (simp_all add: tap)
  also have "\<dots> = accumulate_taps et 100 (99 / 100) 5 4 [c0, c1, r2 * c0, r3 * c0]
          (c0 + c1 * 2 + r2 * c0 * 2 + r3 * c0 * 2)"
    by (simp add: tap)
  also have "\<dots> = accumulate_taps et 100 (99 / 100) 5 (4 + 1)
          ([c0, c1, r2 * c0, r3 * c0] @ [et * (r4 * ModifiedBesselI0 100)])
          (c0 + c1 * 2 + r2 * c0 * 2 + r3 * c0 * 2 + et * (r4 * ModifiedBesselI0 100) * 2)"
    using c0 c1 t2 t3 t4 by (intro accumulate_taps_continue b4 tap_not_stalled) (simp_all add: tap)
  also have "\<dots> = accumulate_taps et 100 (99 / 100) 5 5 [c0, c1, r2 * c0, r3 * c0, r4 * c0]
          (c0 + c1 * 2 + r2 * c0 * 2 + r3 * c0 * 2 + r4 * c0 * 2)"
    by (simp add: tap)
  also have "\<dots> = Inr ([c0, c1, r2 * c0, r3 * c0, r4 * c0] @ [et * (r5 * ModifiedBesselI0 100)],
                       [TruncationWarning])"
    using c0 c1 t2 t3 t4 t5 by (intro accumulate_taps_truncate b5 tap_not_stalled) (simp_all add: tap)
  finally show ?thesis unfolding c0_def c1_def et_def by simp
qed

text \<open>
  Claim C2 says that with \<^verbatim>\<open>maximumKernelWidth = 5\<close> the kernel returned is no longer than
  5 taps and a truncation warning is emitted. The run for variance 100, spacing 1 and
  maximum error 0.01: the running sum is below 0.44 after six one-sided taps, far from the
  cap 0.99; the width test \<^verbatim>\<open>coeff.size() > m_MaximumKernelWidth\<close> fires only once the
  vector holds 6 taps, and mirroring makes 11. The warning is emitted, the bound on the
  length does not hold.
\<close>

theorem C2_truncated_kernel_has_11_taps:
  "warnings_of (GenerateGaussianCoefficients
      \<lparr>m_Variance = 100, m_Spacing = 1, m_MaximumError = 0.01, m_MaximumKernelWidth = 5,
       m_Order = 0, m_NormalizeAcrossScale = False\<rparr>) = [TruncationWarning]
   \<and> length (kernel_of (GenerateGaussianCoefficients
      \<lparr>m_Variance = 100, m_Spacing = 1, m_MaximumError = 0.01, m_MaximumKernelWidth = 5,
       m_Order = 0, m_NormalizeAcrossScale = False\<rparr>)) = 11"
proof -
  obtain coeff where "accumulate_taps (exp (- 100)) 100 (99 / 100) 5 2
        [exp (- 100) * ModifiedBesselI0 100, exp (- 100) * ModifiedBesselI1 100]
        (exp (- 100) * ModifiedBesselI0 100 + exp (- 100) * ModifiedBesselI1 100 * 2)
      = Inr (coeff, [TruncationWarning])" and "length coeff = 6"
    using truncation_at_width_5 by blast
  then show ?thesis
    by (simp add: GenerateGaussianCoefficients_def Let_def warnings_of_def kernel_of_def
          length_make_symmetric length_normalize_taps)
qed

end
